theory Spec2Isabelle
  imports Complex_Main
begin

unbundle bit_operations_syntax

section \<open>Python values shared by the two modules\<close>

text \<open>
  A raised Python exception.  \<open>ValueError\<close> is what \<open>bytes([...])\<close> raises for an
  element outside \<open>range(256)\<close>, \<open>StructError\<close> what \<open>struct.pack('bbb', ...)\<close> raises
  for an element outside the signed byte range, \<open>OverflowError\<close> what the conversion of
  a too large int to float and \<open>int(inf)\<close> raise, \<open>FloatValueError\<close> the ValueError of
  \<open>int(nan)\<close>, and \<open>Raised msg\<close> is an exception of a collaborator (capture, vision
  provider, observer callback) whose \<open>str()\<close> is \<open>msg\<close>.
\<close>

datatype py_exn = ValueError | StructError | OverflowError | FloatValueError | Raised string

fun exn_str :: "py_exn \<Rightarrow> string" where
  "exn_str ValueError = ''bytes must be in range(0, 256)''"
| "exn_str StructError = ''byte format requires -128 <= number <= 127''"
| "exn_str OverflowError = ''int too large to convert to float''"
| "exn_str FloatValueError = ''cannot convert float NaN to integer''"
| "exn_str (Raised msg) = msg"

section \<open>hid.py: keyboard\<close>

text \<open>The tables of hid.py, in the order of the source. Keys are single characters.\<close>

definition KEYMAP :: "(char \<times> int) list" where
  "KEYMAP =
    [(CHR ''a'', 0x04), (CHR ''b'', 0x05), (CHR ''c'', 0x06), (CHR ''d'', 0x07),
     (CHR ''e'', 0x08), (CHR ''f'', 0x09), (CHR ''g'', 0x0A), (CHR ''h'', 0x0B),
     (CHR ''i'', 0x0C), (CHR ''j'', 0x0D), (CHR ''k'', 0x0E), (CHR ''l'', 0x0F),
     (CHR ''m'', 0x10), (CHR ''n'', 0x11), (CHR ''o'', 0x12), (CHR ''p'', 0x13),
     (CHR ''q'', 0x14), (CHR ''r'', 0x15), (CHR ''s'', 0x16), (CHR ''t'', 0x17),
     (CHR ''u'', 0x18), (CHR ''v'', 0x19), (CHR ''w'', 0x1A), (CHR ''x'', 0x1B),
     (CHR ''y'', 0x1C), (CHR ''z'', 0x1D), (CHR ''1'', 0x1E), (CHR ''2'', 0x1F),
     (CHR ''3'', 0x20), (CHR ''4'', 0x21), (CHR ''5'', 0x22), (CHR ''6'', 0x23),
     (CHR ''7'', 0x24), (CHR ''8'', 0x25), (CHR ''9'', 0x26), (CHR ''0'', 0x27),
     (CHR '' '', 0x2C), (CHR ''-'', 0x2D), (CHR ''='', 0x2E), (CHR ''['', 0x2F),
     (CHR '']'', 0x30), (CHR 0x5C, 0x31),
     (CHR '';'', 0x33), (CHR 0x27, 0x34), (CHR 0x60, 0x35), (CHR '','', 0x36),
     (CHR ''.'', 0x37), (CHR ''/'', 0x38),
     (CHR 0x0A, 0x28), (CHR 0x09, 0x2B), (CHR 0x08, 0x2A)]"

definition SHIFT_CHARS :: "(char \<times> char) list" where
  "SHIFT_CHARS =
    [(CHR ''A'', CHR ''a''), (CHR ''B'', CHR ''b''), (CHR ''C'', CHR ''c''),
     (CHR ''D'', CHR ''d''), (CHR ''E'', CHR ''e''), (CHR ''F'', CHR ''f''),
     (CHR ''G'', CHR ''g''), (CHR ''H'', CHR ''h''), (CHR ''I'', CHR ''i''),
     (CHR ''J'', CHR ''j''), (CHR ''K'', CHR ''k''), (CHR ''L'', CHR ''l''),
     (CHR ''M'', CHR ''m''), (CHR ''N'', CHR ''n''), (CHR ''O'', CHR ''o''),
     (CHR ''P'', CHR ''p''), (CHR ''Q'', CHR ''q''), (CHR ''R'', CHR ''r''),
     (CHR ''S'', CHR ''s''), (CHR ''T'', CHR ''t''), (CHR ''U'', CHR ''u''),
     (CHR ''V'', CHR ''v''), (CHR ''W'', CHR ''w''), (CHR ''X'', CHR ''x''),
     (CHR ''Y'', CHR ''y''), (CHR ''Z'', CHR ''z''),
     (CHR ''!'', CHR ''1''), (CHR ''@'', CHR ''2''), (CHR ''#'', CHR ''3''),
     (CHR ''$'', CHR ''4''), (CHR ''%'', CHR ''5''), (CHR ''^'', CHR ''6''),
     (CHR ''&'', CHR ''7''), (CHR ''*'', CHR ''8''), (CHR ''('', CHR ''9''),
     (CHR '')'', CHR ''0''), (CHR ''_'', CHR ''-''), (CHR ''+'', CHR ''=''),
     (CHR ''{'', CHR ''[''), (CHR ''}'', CHR '']''), (CHR ''|'', CHR 0x5C),
     (CHR '':'', CHR '';''), (CHR 0x22, CHR 0x27), (CHR ''~'', CHR 0x60),
     (CHR ''<'', CHR '',''), (CHR ''>'', CHR ''.''), (CHR ''?'', CHR ''/'')]"

definition SPECIAL_KEYS :: "(string \<times> int) list" where
  "SPECIAL_KEYS =
    [(''enter'', 0x28), (''escape'', 0x29), (''backspace'', 0x2A), (''tab'', 0x2B),
     (''space'', 0x2C), (''capslock'', 0x39), (''f1'', 0x3A), (''f2'', 0x3B),
     (''f3'', 0x3C), (''f4'', 0x3D), (''f5'', 0x3E), (''f6'', 0x3F), (''f7'', 0x40),
     (''f8'', 0x41), (''f9'', 0x42), (''f10'', 0x43), (''f11'', 0x44), (''f12'', 0x45),
     (''right'', 0x4F), (''left'', 0x50), (''down'', 0x51), (''up'', 0x52),
     (''delete'', 0x4C), (''home'', 0x4A), (''end'', 0x4D),
     (''pageup'', 0x4B), (''pagedown'', 0x4E)]"

definition MOD_NONE :: int where "MOD_NONE = 0x00"
definition MOD_SHIFT :: int where "MOD_SHIFT = 0x02"

text \<open>\<open>d.get(k, 0)\<close> on a table.\<close>

definition get_or_zero :: "('k \<times> int) list \<Rightarrow> 'k \<Rightarrow> int" where
  "get_or_zero d k = (case map_of d k of None \<Rightarrow> 0 | Some v \<Rightarrow> v)"

text \<open>
  A keyboard report is the 8 bytes \<open>[modifier, 0, keycode, 0, 0, 0, 0, 0]\<close>;
  \<open>bytes\<close> raises ValueError when an element is not a byte, and nothing is written then.
\<close>

type_synonym kbd_report = "int list"

definition kbd_send_report :: "int \<Rightarrow> int \<Rightarrow> py_exn + kbd_report" where
  "kbd_send_report modifier keycode =
     (let report = [modifier, 0, keycode, 0, 0, 0, 0, 0]
      in if list_all (\<lambda>b. 0 \<le> b \<and> b < 256) report then Inr report else Inl ValueError)"

text \<open>
  A keyboard method returns the reports it wrote to the device, in order, and the
  exception that ended it, if any.  The sleeps between the writes have no value and
  are left out.
\<close>

definition press_release :: "int \<Rightarrow> int \<Rightarrow> kbd_report list \<times> py_exn option" where
  "press_release modifier keycode =
     (case kbd_send_report modifier keycode of
        Inl e \<Rightarrow> ([], Some e)
      | Inr press \<Rightarrow>
          (case kbd_send_report 0 0 of
             Inl e \<Rightarrow> ([press], Some e)
           | Inr release \<Rightarrow> ([press, release], None)))"

text \<open>The first statement of \<open>press_key\<close>: a character of SHIFT_CHARS becomes its base
  character, with MOD_SHIFT or-ed into the modifier.\<close>

definition resolve_shift :: "char \<Rightarrow> int \<Rightarrow> int \<times> char" where
  "resolve_shift char modifier =
     (case map_of SHIFT_CHARS char of
        Some base \<Rightarrow> (modifier OR MOD_SHIFT, base)
      | None \<Rightarrow> (modifier, char))"

definition press_key :: "char \<Rightarrow> int \<Rightarrow> kbd_report list \<times> py_exn option" where
  "press_key char modifier =
     (let (modifier', char') = resolve_shift char modifier;
          keycode = get_or_zero KEYMAP char'
      in if keycode = 0 then ([], None) else press_release modifier' keycode)"

text \<open>\<open>str.lower()\<close> on the 8-bit characters of the model: A-Z go to a-z.\<close>

definition lower_char :: "char \<Rightarrow> char" where
  "lower_char c =
     (let n = (of_char c :: nat) in if 65 \<le> n \<and> n \<le> 90 then char_of (n + 32) else c)"

definition lower :: "string \<Rightarrow> string" where
  "lower s = map lower_char s"

definition press_special :: "string \<Rightarrow> int \<Rightarrow> kbd_report list \<times> py_exn option" where
  "press_special key modifier =
     (let keycode = get_or_zero SPECIAL_KEYS (lower key)
      in if keycode = 0 then ([], None) else press_release modifier keycode)"

fun type_string :: "string \<Rightarrow> kbd_report list \<times> py_exn option" where
  "type_string [] = ([], None)"
| "type_string (char # text) =
     (case press_key char MOD_NONE of
        (rs, Some e) \<Rightarrow> (rs, Some e)
      | (rs, None) \<Rightarrow> (case type_string text of (rs', r) \<Rightarrow> (rs @ rs', r)))"

text \<open>
  Reading a report back, as the host does: the keycode gives the base character through
  KEYMAP, and the shift bit of the modifier selects the SHIFT_CHARS entry of that base.
  This is the inverse the round-trip property of the tables is stated against; hid.py
  itself has no decoder.
\<close>

definition base_of_keycode :: "int \<Rightarrow> char option" where
  "base_of_keycode keycode = map_option fst (find (\<lambda>(c, k). k = keycode) KEYMAP)"

definition shifted_of_base :: "char \<Rightarrow> char option" where
  "shifted_of_base base = map_option fst (find (\<lambda>(c, b). b = base) SHIFT_CHARS)"

definition decode_key :: "int \<Rightarrow> int \<Rightarrow> char option" where
  "decode_key keycode modifier =
     (case base_of_keycode keycode of
        None \<Rightarrow> None
      | Some base \<Rightarrow> if modifier AND MOD_SHIFT = 0 then Some base else shifted_of_base base)"

section \<open>hid.py: mouse\<close>

text \<open>
  A mouse report is \<open>struct.pack('bbb', buttons, x, y)\<close> after x and y are clamped to
  [-127, 127]: three signed bytes, kept here as their values.  \<open>struct.pack\<close> raises
  for a value outside [-128, 127], which only \<open>buttons\<close> can be.
\<close>

type_synonym mouse_report = "int \<times> int \<times> int"

definition clamp127 :: "int \<Rightarrow> int" where
  "clamp127 v = max (-127) (min 127 v)"

definition mouse_send_report :: "int \<Rightarrow> int \<Rightarrow> int \<Rightarrow> py_exn + mouse_report" where
  "mouse_send_report buttons x y =
     (let x' = clamp127 x; y' = clamp127 y
      in if list_all (\<lambda>v. -128 \<le> v \<and> v \<le> 127) [buttons, x', y']
         then Inr (buttons, x', y') else Inl StructError)"

definition move :: "int \<Rightarrow> int \<Rightarrow> mouse_report list \<times> py_exn option" where
  "move x y = (case mouse_send_report 0 x y of Inl e \<Rightarrow> ([], Some e) | Inr r \<Rightarrow> ([r], None))"

definition button_code :: "string \<Rightarrow> int" where
  "button_code button =
     (case map_of [(''left'', 1), (''right'', 2), (''middle'', 4)] button of
        None \<Rightarrow> 1 | Some b \<Rightarrow> b)"

definition click :: "string \<Rightarrow> mouse_report list \<times> py_exn option" where
  "click button =
     (case mouse_send_report (button_code button) 0 0 of
        Inl e \<Rightarrow> ([], Some e)
      | Inr down \<Rightarrow>
          (case mouse_send_report 0 0 0 of
             Inl e \<Rightarrow> ([down], Some e)
           | Inr up \<Rightarrow> ([down, up], None)))"

text \<open>\<open>for _ in range(n): self.move(-127, -127)\<close>\<close>

fun move_to_corner :: "nat \<Rightarrow> mouse_report list \<times> py_exn option" where
  "move_to_corner 0 = ([], None)"
| "move_to_corner (Suc n) =
     (case move (-127) (-127) of
        (rs, Some e) \<Rightarrow> (rs, Some e)
      | (rs, None) \<Rightarrow> (case move_to_corner n of (rs', r) \<Rightarrow> (rs @ rs', r)))"

text \<open>The \<open>while abs(dx) > 0 or abs(dy) > 0\<close> loop of \<open>move_to\<close>.\<close>

function move_steps :: "int \<Rightarrow> int \<Rightarrow> mouse_report list \<times> py_exn option" where
  "move_steps dx dy =
     (if \<bar>dx\<bar> > 0 \<or> \<bar>dy\<bar> > 0 then
        (let step_x = max (-127) (min 127 dx);
             step_y = max (-127) (min 127 dy)
         in case move step_x step_y of
              (rs, Some e) \<Rightarrow> (rs, Some e)
            | (rs, None) \<Rightarrow>
                (case move_steps (dx - step_x) (dy - step_y) of (rs', r) \<Rightarrow> (rs @ rs', r)))
      else ([], None))"
  by pat_completeness auto
termination
  by (relation "measure (\<lambda>(dx, dy). nat \<bar>dx\<bar> + nat \<bar>dy\<bar>)")
     (auto simp: max_def min_def)

definition move_to ::
  "int \<Rightarrow> int \<Rightarrow> int \<Rightarrow> int \<Rightarrow> int option \<Rightarrow> int option \<Rightarrow> mouse_report list \<times> py_exn option"
where
  "move_to target_x target_y screen_width screen_height current_x current_y =
     (case (current_x, current_y) of
        (Some cx, Some cy) \<Rightarrow> move_steps (target_x - cx) (target_y - cy)
      | _ \<Rightarrow>
          (case move_to_corner 20 of
             (rs, Some e) \<Rightarrow> (rs, Some e)
           | (rs, None) \<Rightarrow>
               (case move_steps (target_x - 0) (target_y - 0) of (rs', r) \<Rightarrow> (rs @ rs', r))))"

section \<open>agent.py: data\<close>

datatype Point = Point (pt_x: int) (pt_y: int)

record ScreenAnalysis =
  cursor_position :: "Point option"
  target_position :: "Point option"
  target_found :: bool
  target_description :: string
  suggested_action :: string
  text_to_type :: "string option"
  confidence :: real
  raw_response :: string

text \<open>The dict that \<open>execute_task\<close> returns; its key \<open>'history'\<close> is \<open>result_history\<close>.\<close>

record RunResult =
  success :: bool
  iterations :: int
  result_history :: "ScreenAnalysis list"
  error :: "string option"

text \<open>
  The fields of \<open>Agent\<close> that the loop reads and writes.  The two devices are the
  reports written so far to the keyboard and to the mouse; \<open>vision_calls\<close> and
  \<open>callback_calls\<close> record the arguments of each call made to the vision provider and
  to the callback, in order.
\<close>

record Agent =
  screen_width :: int
  screen_height :: int
  move_speed :: int
  max_iterations :: int
  iteration :: int
  history :: "ScreenAnalysis list"
  estimated_cursor :: "Point option"
  keyboard_dev :: "kbd_report list"
  mouse_dev :: "mouse_report list"
  vision_calls :: "(string \<times> string \<times> string) list"
  callback_calls :: "(int \<times> ScreenAnalysis \<times> string) list"

text \<open>
  The collaborators.  \<open>capture\<close> and \<open>analyze\<close> take the number of the iteration that
  calls them, so that a scripted or stateful collaborator is a function; each returns
  its value or the exception it raises.  A callback returns the exception it raises,
  if any.  \<open>libm_pow_half\<close> is the C library's \<open>pow(x, 0.5)\<close>, which \<open>float.__pow__\<close>
  calls for a finite double \<open>x\<close> other than 0 and 1: its last bit differs between
  platforms, so it is not fixed here.
\<close>

record collaborators =
  capture :: "int \<Rightarrow> py_exn + string"
  analyze :: "int \<Rightarrow> string \<Rightarrow> string \<Rightarrow> string \<Rightarrow> py_exn + ScreenAnalysis"
  libm_pow_half :: "real \<Rightarrow> real"

type_synonym callback = "int \<Rightarrow> ScreenAnalysis \<Rightarrow> string \<Rightarrow> py_exn option"

section \<open>Python floats\<close>

text \<open>
  A Python float is an IEEE 754 binary64 number.  A finite one is kept as the real it
  denotes; \<open>rnd64\<close> rounds a real to the nearest binary64 number, ties to even, with
  53 significant bits and the exponent of the subnormals as the least one.  A real
  rounds to a finite double exactly when it is below \<open>2^1024 - 2^970\<close> in magnitude.
\<close>

datatype pyfloat = Finite real | Infinity | NaN

definition round_half_even :: "real \<Rightarrow> int" where
  "round_half_even m =
     (let f = \<lfloor>m\<rfloor>
      in if m - of_int f < 1 / 2 then f
         else if m - of_int f > 1 / 2 then f + 1
         else if even f then f else f + 1)"

definition exponent64 :: "real \<Rightarrow> int" where
  "exponent64 x = max (- 1022) \<lfloor>log 2 \<bar>x\<bar>\<rfloor>"

definition ulp64 :: "real \<Rightarrow> real" where
  "ulp64 x = 2 powr of_int (exponent64 x - 52)"

definition rnd64 :: "real \<Rightarrow> real" where
  "rnd64 x = (if x = 0 then 0 else of_int (round_half_even (x / ulp64 x)) * ulp64 x)"

definition fits64 :: "real \<Rightarrow> bool" where
  "fits64 x \<longleftrightarrow> \<bar>x\<bar> < 2 ^ 1024 - 2 ^ 970"

text \<open>The conversion of an int operand of \<open>**\<close>, \<open>/\<close> or \<open>*\<close> to float.\<close>

definition float_of_int :: "int \<Rightarrow> py_exn + real" where
  "float_of_int n = (if fits64 (of_int n) then Inr (rnd64 (of_int n)) else Inl OverflowError)"

text \<open>\<open>a / b\<close> for finite floats, \<open>b\<close> not zero; the quotient overflows to an infinity.\<close>

definition float_div :: "real \<Rightarrow> real \<Rightarrow> pyfloat" where
  "float_div a b = (if fits64 (a / b) then Finite (rnd64 (a / b)) else Infinity)"

text \<open>\<open>x * b\<close> for a finite float \<open>b\<close>.\<close>

definition float_mul :: "pyfloat \<Rightarrow> real \<Rightarrow> pyfloat" where
  "float_mul x b =
     (case x of
        Finite a \<Rightarrow> if fits64 (a * b) then Finite (rnd64 (a * b)) else Infinity
      | Infinity \<Rightarrow> if b = 0 then NaN else Infinity
      | NaN \<Rightarrow> NaN)"

text \<open>\<open>int(x)\<close> truncates toward zero and raises for an infinity and for a NaN.\<close>

definition py_int :: "pyfloat \<Rightarrow> py_exn + int" where
  "py_int x =
     (case x of
        Finite r \<Rightarrow> Inr (if 0 \<le> r then \<lfloor>r\<rfloor> else \<lceil>r\<rceil>)
      | Infinity \<Rightarrow> Inl OverflowError
      | NaN \<Rightarrow> Inl FloatValueError)"

text \<open>
  \<open>n ** 0.5\<close> for an int \<open>n\<close> that is not negative: \<open>n\<close> is converted to float, and
  \<open>float.__pow__\<close> answers 0.0 and 1.0 itself and leaves every other base to the C
  library.
\<close>

definition int_pow_half :: "collaborators \<Rightarrow> int \<Rightarrow> py_exn + real" where
  "int_pow_half env n =
     (case float_of_int n of
        Inl e \<Rightarrow> Inl e
      | Inr x \<Rightarrow> Inr (if x = 0 then 0 else if x = 1 then 1 else libm_pow_half env x))"

section \<open>agent.py: moving the cursor\<close>

text \<open>\<open>distance = (dx**2 + dy**2) ** 0.5\<close>\<close>

definition distance_of :: "collaborators \<Rightarrow> int \<Rightarrow> int \<Rightarrow> py_exn + real" where
  "distance_of env dx dy = int_pow_half env (dx ^ 2 + dy ^ 2)"

text \<open>\<open>if distance < 50: ... elif distance < 150: ...\<close>\<close>

definition proportional_speed :: "real \<Rightarrow> int \<Rightarrow> int" where
  "proportional_speed distance speed =
     (if distance < 50 then max 5 (speed div 4)
      else if distance < 150 then max 10 (speed div 2)
      else speed)"

text \<open>\<open>int((d / distance) * speed)\<close> for one component \<open>d\<close>, \<open>distance\<close> being positive.\<close>

definition scale_component :: "int \<Rightarrow> real \<Rightarrow> int \<Rightarrow> py_exn + int" where
  "scale_component d distance speed =
     (case float_of_int d of
        Inl e \<Rightarrow> Inl e
      | Inr df \<Rightarrow>
          (case float_of_int speed of
             Inl e \<Rightarrow> Inl e
           | Inr sf \<Rightarrow> py_int (float_mul (float_div df distance) sf)))"

text \<open>\<open>if distance > 0: move_x = ...; move_y = ... else: move_x, move_y = 0, 0\<close>\<close>

definition normalize_scale :: "int \<Rightarrow> int \<Rightarrow> real \<Rightarrow> int \<Rightarrow> py_exn + int \<times> int" where
  "normalize_scale dx dy distance speed =
     (if distance > 0
      then (case scale_component dx distance speed of
              Inl e \<Rightarrow> Inl e
            | Inr move_x \<Rightarrow>
                (case scale_component dy distance speed of
                   Inl e \<Rightarrow> Inl e
                 | Inr move_y \<Rightarrow> Inr (move_x, move_y)))
      else Inr (0, 0))"

text \<open>
  The two branches of \<open>if self.estimated_cursor: ... else: ...\<close>, giving (move_x, move_y)
  or the exception that the arithmetic raises.
\<close>

definition move_vector :: "collaborators \<Rightarrow> Agent \<Rightarrow> Point \<Rightarrow> int \<Rightarrow> py_exn + int \<times> int" where
  "move_vector env a target speed =
     (case estimated_cursor a of
        Some cur \<Rightarrow>
          (let dx = pt_x target - pt_x cur;
               dy = pt_y target - pt_y cur
           in case distance_of env dx dy of
                Inl e \<Rightarrow> Inl e
              | Inr distance \<Rightarrow>
                  normalize_scale dx dy distance (proportional_speed distance speed))
      | None \<Rightarrow>
          (let center = Point (screen_width a div 2) (screen_height a div 2);
               dx = pt_x target - pt_x center;
               dy = pt_y target - pt_y center
           in case distance_of env dx dy of
                Inl e \<Rightarrow> Inl e
              | Inr distance \<Rightarrow> normalize_scale dx dy distance speed))"

text \<open>\<open>speed = speed or self.move_speed\<close>: None and 0 both select the base speed.\<close>

definition speed_or_default :: "int option \<Rightarrow> Agent \<Rightarrow> int" where
  "speed_or_default speed a =
     (case speed of None \<Rightarrow> move_speed a | Some s \<Rightarrow> if s = 0 then move_speed a else s)"

text \<open>
  An exception of the arithmetic leaves \<open>move_cursor_toward\<close> before \<open>self.mouse.move\<close>:
  nothing is written and the estimate is not touched.
\<close>

definition move_cursor_toward ::
  "collaborators \<Rightarrow> Point \<Rightarrow> int option \<Rightarrow> Agent \<Rightarrow> py_exn option \<times> Agent" where
  "move_cursor_toward env target speed a =
     (case move_vector env a target (speed_or_default speed a) of
        Inl e \<Rightarrow> (Some e, a)
      | Inr (move_x, move_y) \<Rightarrow>
          (let (rs, r) = move move_x move_y;
               a' = a\<lparr>mouse_dev := mouse_dev a @ rs\<rparr>
           in case r of
                Some e \<Rightarrow> (Some e, a')
              | None \<Rightarrow>
                  (None,
                   case estimated_cursor a' of
                     Some cur \<Rightarrow>
                       a'\<lparr>estimated_cursor :=
                            Some (Point (pt_x cur + move_x) (pt_y cur + move_y))\<rparr>
                   | None \<Rightarrow> a')))"

definition agent_click :: "string \<Rightarrow> Agent \<Rightarrow> py_exn option \<times> Agent" where
  "agent_click button a = (let (rs, r) = click button in (r, a\<lparr>mouse_dev := mouse_dev a @ rs\<rparr>))"

definition type_text :: "string \<Rightarrow> Agent \<Rightarrow> py_exn option \<times> Agent" where
  "type_text text a =
     (let (rs, r) = type_string text in (r, a\<lparr>keyboard_dev := keyboard_dev a @ rs\<rparr>))"

definition agent_press_special :: "string \<Rightarrow> Agent \<Rightarrow> py_exn option \<times> Agent" where
  "agent_press_special key a =
     (let (rs, r) = press_special key MOD_NONE in (r, a\<lparr>keyboard_dev := keyboard_dev a @ rs\<rparr>))"

section \<open>agent.py: the loop\<close>

text \<open>\<open>str(n)\<close> for the iteration number of an f-string.\<close>

fun digits :: "nat \<Rightarrow> string" where
  "digits n =
     (if n < 10 then [''0123456789'' ! n]
      else digits (n div 10) @ [''0123456789'' ! (n mod 10)])"

declare digits.simps [simp del]

definition str_int :: "int \<Rightarrow> string" where
  "str_int i = (if i < 0 then CHR ''-'' # digits (nat (- i)) else digits (nat i))"

text \<open>\<open>f"\nIteration {self.iteration}: "\<close>, the head of every context note.\<close>

definition note_head :: "int \<Rightarrow> string" where
  "note_head i = CHR 0x0A # ''Iteration '' @ str_int i @ '': ''"

text \<open>\<open>if callback: callback(self.iteration, analysis, action)\<close>\<close>

definition notify ::
  "callback option \<Rightarrow> ScreenAnalysis \<Rightarrow> string \<Rightarrow> Agent \<Rightarrow> py_exn option \<times> Agent" where
  "notify cb analysis action a =
     (case cb of
        None \<Rightarrow> (None, a)
      | Some f \<Rightarrow>
          (f (iteration a) analysis action,
           a\<lparr>callback_calls := callback_calls a @ [(iteration a, analysis, action)]\<rparr>))"

text \<open>
  How one pass through the body of the \<open>while\<close> loop ends: it falls through or
  \<open>continue\<close>s with the context it has built, it returns a result, or an exception
  that nothing in \<open>execute_task\<close> catches leaves the method.
\<close>

datatype outcome = Continue string Agent | Return RunResult Agent | Propagate py_exn Agent

definition notify_then_continue ::
  "callback option \<Rightarrow> string \<Rightarrow> ScreenAnalysis \<Rightarrow> string \<Rightarrow> py_exn option \<times> Agent \<Rightarrow> outcome"
where
  "notify_then_continue cb context analysis action ra =
     (case ra of
        (Some e, a) \<Rightarrow> Propagate e a
      | (None, a) \<Rightarrow>
          (case notify cb analysis action a of
             (Some e, a') \<Rightarrow> Propagate e a'
           | (None, a') \<Rightarrow> Continue context a'))"

text \<open>Step 3 of the loop body, the \<open>if\<close>/\<open>elif\<close> chain on \<open>analysis.suggested_action\<close>.\<close>

definition execute_action ::
  "collaborators \<Rightarrow> callback option \<Rightarrow> string \<Rightarrow> ScreenAnalysis \<Rightarrow> Agent \<Rightarrow> outcome" where
  "execute_action env cb context analysis a =
     (let action = suggested_action analysis; head = note_head (iteration a) in
      if action = ''done'' then
        (case notify cb analysis ''done'' a of
           (Some e, a') \<Rightarrow> Propagate e a'
         | (None, a') \<Rightarrow>
             Return \<lparr>success = True, iterations = iteration a',
                     result_history = history a', error = None\<rparr> a')
      else if action = ''error'' then
        notify_then_continue cb
          (context @ head @ ''Error - '' @ target_description analysis)
          analysis ''error'' (None, a)
      else if action = ''move'' then
        (case target_position analysis of
           Some target \<Rightarrow>
             notify_then_continue cb
               (context @ head @ ''Moved toward '' @ target_description analysis)
               analysis ''move'' (move_cursor_toward env target None a)
         | None \<Rightarrow> notify_then_continue cb context analysis ''move'' (None, a))
      else if action = ''click'' then
        notify_then_continue cb
          (context @ head @ ''Clicked on '' @ target_description analysis)
          analysis ''click'' (agent_click ''left'' a)
      else if action = ''type'' then
        (case text_to_type analysis of
           Some (c # cs) \<Rightarrow>
             notify_then_continue cb
               (context @ head @ ''Typed '' @ [CHR 0x27] @ (c # cs) @ [CHR 0x27])
               analysis ''type'' (type_text (c # cs) a)
         | _ \<Rightarrow> notify_then_continue cb context analysis ''type'' (None, a))
      else if action = ''scroll_up'' then
        notify_then_continue cb (context @ head @ ''Scrolled up'')
          analysis ''scroll_up'' (agent_press_special ''pageup'' a)
      else if action = ''scroll_down'' then
        notify_then_continue cb (context @ head @ ''Scrolled down'')
          analysis ''scroll_down'' (agent_press_special ''pagedown'' a)
      else Continue context a)"

text \<open>One pass through the body of the \<open>while\<close> loop, from \<open>self.iteration += 1\<close>.\<close>

definition iteration_body ::
  "collaborators \<Rightarrow> callback option \<Rightarrow> string \<Rightarrow> string \<Rightarrow> Agent \<Rightarrow> outcome" where
  "iteration_body env cb task context a0 =
     (let a1 = a0\<lparr>iteration := iteration a0 + 1\<rparr> in
      case capture env (iteration a1) of
        Inl e \<Rightarrow>
          Return \<lparr>success = False, iterations = iteration a1, result_history = history a1,
                  error = Some (''Capture failed: '' @ exn_str e)\<rparr> a1
      | Inr image_b64 \<Rightarrow>
          (let a2 = a1\<lparr>vision_calls := vision_calls a1 @ [(image_b64, task, context)]\<rparr> in
           case analyze env (iteration a2) image_b64 task context of
             Inl e \<Rightarrow>
               Return \<lparr>success = False, iterations = iteration a2, result_history = history a2,
                       error = Some (''Vision failed: '' @ exn_str e)\<rparr> a2
           | Inr analysis \<Rightarrow>
               (let a3 = a2\<lparr>history := history a2 @ [analysis]\<rparr>;
                    a4 = (case cursor_position analysis of
                            Some p \<Rightarrow> a3\<lparr>estimated_cursor := Some p\<rparr>
                          | None \<Rightarrow> a3)
                in execute_action env cb context analysis a4)))"

text \<open>
  The loop below terminates because a pass that continues has added one to
  \<open>iteration\<close> and left \<open>max_iterations\<close> alone.
\<close>

definition same_counters :: "Agent \<Rightarrow> Agent \<Rightarrow> bool" where
  "same_counters a a' \<longleftrightarrow> iteration a' = iteration a \<and> max_iterations a' = max_iterations a"

lemma same_counters_refl: "same_counters a a"
  by (simp add: same_counters_def)

lemma same_counters_trans: "same_counters a b \<Longrightarrow> same_counters b c \<Longrightarrow> same_counters a c"
  by (simp add: same_counters_def)

lemma notify_counters: "same_counters a (snd (notify cb analysis action a))"
  by (simp add: notify_def same_counters_def split: option.splits)

lemma move_cursor_toward_counters: "same_counters a (snd (move_cursor_toward env target speed a))"
  by (simp add: move_cursor_toward_def same_counters_def Let_def
      split: prod.splits option.splits sum.splits)

lemma agent_click_counters: "same_counters a (snd (agent_click button a))"
  by (simp add: agent_click_def same_counters_def split: prod.splits)

lemma type_text_counters: "same_counters a (snd (type_text text a))"
  by (simp add: type_text_def same_counters_def split: prod.splits)

lemma agent_press_special_counters: "same_counters a (snd (agent_press_special key a))"
  by (simp add: agent_press_special_def same_counters_def split: prod.splits)

lemma notify_then_continue_counters:
  assumes "notify_then_continue cb context analysis action ra = Continue context' a'"
  shows "same_counters (snd ra) a'"
proof -
  obtain r a where ra: "ra = (r, a)" by (cases ra)
  with assms have r: "r = None" and n: "snd (notify cb analysis action a) = a'"
    by (auto simp: notify_then_continue_def split: option.splits prod.splits)
  from notify_counters[of a cb analysis action] n ra show ?thesis by simp
qed

lemma execute_action_counters:
  assumes "execute_action env cb context analysis a = Continue context' a'"
  shows "same_counters a a'"
proof -
  have step: "same_counters a a'"
    if "notify_then_continue cb c analysis act ra = Continue context' a'"
      and "same_counters a (snd ra)" for c act ra
    using notify_then_continue_counters[OF that(1)] that(2) by (rule same_counters_trans[rotated])
  from assms show ?thesis
    unfolding execute_action_def Let_def
    by (auto split: if_splits option.splits list.splits prod.splits
        intro: step move_cursor_toward_counters agent_click_counters type_text_counters
          agent_press_special_counters same_counters_refl
        simp: same_counters_refl)
qed

lemma iteration_body_counters:
  assumes "iteration_body env cb task context a = Continue context' a'"
  shows "iteration a' = iteration a + 1 \<and> max_iterations a' = max_iterations a"
  using assms unfolding iteration_body_def Let_def
  by (auto split: sum.splits option.splits dest!: execute_action_counters simp: same_counters_def)

text \<open>\<open>while self.iteration < self.max_iterations: ...\<close> and the return after it.\<close>

function execute_loop ::
  "collaborators \<Rightarrow> callback option \<Rightarrow> string \<Rightarrow> string \<Rightarrow> Agent \<Rightarrow> (py_exn + RunResult) \<times> Agent"
where
  "execute_loop env cb task context a =
     (if iteration a < max_iterations a then
        (case iteration_body env cb task context a of
           Continue context' a' \<Rightarrow> execute_loop env cb task context' a'
         | Return res a' \<Rightarrow> (Inr res, a')
         | Propagate e a' \<Rightarrow> (Inl e, a'))
      else
        (Inr \<lparr>success = False, iterations = iteration a, result_history = history a,
              error = Some ''Max iterations reached''\<rparr>, a))"
  by pat_completeness auto
termination
proof (relation "measure (\<lambda>(env, cb, task, context, a). nat (max_iterations a - iteration a))")
  show "wf (measure (\<lambda>(env, cb, task, context, a). nat (max_iterations a - iteration a)))"
    by simp
next
  fix env cb task ctx a ctx' a'
  assume "iteration a < max_iterations a"
    and "iteration_body env cb task ctx a = Continue ctx' a'"
  then show "((env, cb, task, ctx', a'), (env, cb, task, ctx, a))
          \<in> measure (\<lambda>(env, cb, task, context, a). nat (max_iterations a - iteration a))"
    using iteration_body_counters[of env cb task ctx a ctx' a'] by simp
qed

declare execute_loop.simps [simp del]

definition execute_task ::
  "collaborators \<Rightarrow> callback option \<Rightarrow> string \<Rightarrow> Agent \<Rightarrow> (py_exn + RunResult) \<times> Agent" where
  "execute_task env cb task a = execute_loop env cb task [] (a\<lparr>iteration := 0, history := []\<rparr>)"

section \<open>Vocabulary for the properties\<close>

text \<open>The actions that the \<open>if\<close>/\<open>elif\<close> chain of \<open>execute_task\<close> has a branch for.\<close>

definition recognized_actions :: "string list" where
  "recognized_actions =
     [''move'', ''click'', ''type'', ''scroll_up'', ''scroll_down'', ''done'', ''error'']"

text \<open>What is left of an outcome when only the context or only the agent is looked at.\<close>

fun outcome_agent :: "outcome \<Rightarrow> Agent" where
  "outcome_agent (Continue context a) = a"
| "outcome_agent (Return res a) = a"
| "outcome_agent (Propagate e a) = a"

fun outcome_context :: "outcome \<Rightarrow> string option" where
  "outcome_context (Continue context a) = Some context"
| "outcome_context (Return res a) = None"
| "outcome_context (Propagate e a) = None"

text \<open>No callback, or a callback that returns normally on every call.\<close>

definition callback_never_raises :: "callback option \<Rightarrow> bool" where
  "callback_never_raises cb \<longleftrightarrow>
     (case cb of None \<Rightarrow> True | Some f \<Rightarrow> \<forall>i analysis action. f i analysis action = None)"

text \<open>
  On iteration \<open>i\<close> the capture returns a frame and the vision provider, whatever frame
  and context it is given, returns a judgment whose action is not (respectively is)
  \<open>'done'\<close>.
\<close>

definition judge_not_done :: "collaborators \<Rightarrow> string \<Rightarrow> int \<Rightarrow> bool" where
  "judge_not_done env task i \<longleftrightarrow>
     (\<exists>image. capture env i = Inr image) \<and>
     (\<forall>image context. \<exists>analysis.
        analyze env i image task context = Inr analysis \<and> suggested_action analysis \<noteq> ''done'')"

definition judge_done :: "collaborators \<Rightarrow> string \<Rightarrow> int \<Rightarrow> bool" where
  "judge_done env task i \<longleftrightarrow>
     (\<exists>image. capture env i = Inr image) \<and>
     (\<forall>image context. \<exists>analysis.
        analyze env i image task context = Inr analysis \<and> suggested_action analysis = ''done'')"

text \<open>\<open>Agent.__init__\<close> with the given resolution, base speed and iteration cap.\<close>

definition init_agent :: "int \<times> int \<Rightarrow> int \<Rightarrow> int \<Rightarrow> Agent" where
  "init_agent screen_resolution speed cap =
     \<lparr>screen_width = fst screen_resolution, screen_height = snd screen_resolution,
      move_speed = speed, max_iterations = cap, iteration = 0, history = [],
      estimated_cursor = None, keyboard_dev = [], mouse_dev = [],
      vision_calls = [], callback_calls = []\<rparr>"

text \<open>A C library whose \<open>pow(x, 0.5)\<close> is the correctly rounded square root.\<close>

definition sqrt64 :: "real \<Rightarrow> real" where
  "sqrt64 x = rnd64 (sqrt x)"

text \<open>
  Scripted collaborators for concrete runs: the capture always returns the frame
  \<open>''frame''\<close>, on iteration \<open>i\<close> the vision provider returns \<open>script i\<close>, and the
  C library is the one above.
\<close>

definition scripted_judgment :: "string \<Rightarrow> Point option \<Rightarrow> Point option \<Rightarrow> ScreenAnalysis" where
  "scripted_judgment action cursor target =
     \<lparr>cursor_position = cursor, target_position = target, target_found = (target \<noteq> None),
      target_description = ''button'', suggested_action = action, text_to_type = None,
      confidence = 1, raw_response = []\<rparr>"

definition scripted :: "(int \<Rightarrow> ScreenAnalysis) \<Rightarrow> collaborators" where
  "scripted script =
     \<lparr>capture = (\<lambda>i. Inr ''frame''), analyze = (\<lambda>i image task context. Inr (script i)),
      libm_pow_half = sqrt64\<rparr>"

definition constant_script :: "ScreenAnalysis \<Rightarrow> int \<Rightarrow> ScreenAnalysis" where
  "constant_script analysis i = analysis"

definition done_at :: "int \<Rightarrow> ScreenAnalysis \<Rightarrow> int \<Rightarrow> ScreenAnalysis" where
  "done_at k analysis i = (if i = k then scripted_judgment ''done'' None None else analysis)"

definition broken_capture :: collaborators where
  "broken_capture =
     \<lparr>capture = (\<lambda>i. Inl (Raised ''no device'')),
      analyze = (\<lambda>i image task context. Inr (scripted_judgment ''done'' None None)),
      libm_pow_half = sqrt64\<rparr>"

definition silent_callback :: callback where
  "silent_callback i analysis action = None"

definition raising_callback :: callback where
  "raising_callback i analysis action = Some (Raised ''viewer closed'')"

definition arithmetic_exn :: "py_exn \<Rightarrow> bool" where
  "arithmetic_exn e \<longleftrightarrow> e = OverflowError \<or> e = FloatValueError"

definition observed_estimate :: "ScreenAnalysis \<Rightarrow> Agent \<Rightarrow> Point option" where
  "observed_estimate analysis a =
     (case cursor_position analysis of Some p \<Rightarrow> Some p | None \<Rightarrow> estimated_cursor a)"

definition motion_defined :: "collaborators \<Rightarrow> ScreenAnalysis \<Rightarrow> Agent \<Rightarrow> bool" where
  "motion_defined env analysis a \<longleftrightarrow>
     (suggested_action analysis = ''move'' \<longrightarrow>
        (\<forall>target. target_position analysis = Some target \<longrightarrow>
           (\<exists>mv. move_vector env (a\<lparr>estimated_cursor := observed_estimate analysis a\<rparr>)
                   target (move_speed a) = Inr mv)))"

declare move_steps.simps [simp del]

section \<open>Properties of hid.py\<close>

subsection \<open>Facts about the tables\<close>

lemma KEYMAP_values: "list_all (\<lambda>(c, k). 0 < k \<and> k < 256) KEYMAP"
  by (simp add: KEYMAP_def)

lemma SPECIAL_KEYS_values: "list_all (\<lambda>(c, k). 0 < k \<and> k < 256) SPECIAL_KEYS"
  by (simp add: SPECIAL_KEYS_def)

lemma SHIFT_CHARS_bases: "list_all (\<lambda>(c, b). map_of KEYMAP b \<noteq> None) SHIFT_CHARS"
  by code_simp

lemma SHIFT_CHARS_roundtrip:
  "list_all (\<lambda>(c, b). base_of_keycode (get_or_zero KEYMAP b) = Some b \<and> shifted_of_base b = Some c)
     SHIFT_CHARS"
  by code_simp

lemma KEYMAP_range: "map_of KEYMAP c = Some k \<Longrightarrow> 0 < k \<and> k < 256"
  using KEYMAP_values by (auto simp: list_all_iff dest: map_of_SomeD)

lemma SPECIAL_KEYS_range: "map_of SPECIAL_KEYS s = Some k \<Longrightarrow> 0 < k \<and> k < 256"
  using SPECIAL_KEYS_values by (auto simp: list_all_iff dest: map_of_SomeD)

lemma SHIFT_CHARS_base_mapped: "map_of SHIFT_CHARS c = Some b \<Longrightarrow> \<exists>k. map_of KEYMAP b = Some k"
  using SHIFT_CHARS_bases by (auto simp: list_all_iff dest: map_of_SomeD)

lemma SHIFT_CHARS_decode:
  "map_of SHIFT_CHARS c = Some b \<Longrightarrow>
     base_of_keycode (get_or_zero KEYMAP b) = Some b \<and> shifted_of_base b = Some c"
  using SHIFT_CHARS_roundtrip by (auto simp: list_all_iff dest: map_of_SomeD)

subsection \<open>Reports\<close>

lemma press_release_ok:
  "0 \<le> modifier \<Longrightarrow> modifier < 256 \<Longrightarrow> 0 < keycode \<Longrightarrow> keycode < 256 \<Longrightarrow>
     press_release modifier keycode =
       ([[modifier, 0, keycode, 0, 0, 0, 0, 0], [0, 0, 0, 0, 0, 0, 0, 0]], None)"
  by (simp add: press_release_def kbd_send_report_def)

lemma or_shift_range: "0 \<le> (m::int) \<Longrightarrow> m < 256 \<Longrightarrow> 0 \<le> m OR MOD_SHIFT \<and> m OR MOD_SHIFT < 256"
  using OR_upper[of m 8 2] by (simp add: MOD_SHIFT_def)

lemma or_shift_bit: "((m::int) OR MOD_SHIFT) AND MOD_SHIFT = MOD_SHIFT"
  unfolding MOD_SHIFT_def by (rule bit_eqI) (auto simp: bit_and_iff bit_or_iff)

lemma move_ok: "move x y = ([(0, clamp127 x, clamp127 y)], None)"
  by (simp add: move_def mouse_send_report_def clamp127_def Let_def max_def min_def)

lemma press_key_shifted:
  assumes "0 \<le> modifier" "modifier < 256" "map_of SHIFT_CHARS char = Some base"
  shows "press_key char modifier =
           ([[modifier OR MOD_SHIFT, 0, get_or_zero KEYMAP base, 0, 0, 0, 0, 0],
             [0, 0, 0, 0, 0, 0, 0, 0]], None) \<and> get_or_zero KEYMAP base \<noteq> 0"
proof -
  obtain k where k: "map_of KEYMAP base = Some k"
    using SHIFT_CHARS_base_mapped[OF assms(3)] by blast
  have kr: "0 < k" "k < 256" using KEYMAP_range[OF k] by simp_all
  have g: "get_or_zero KEYMAP base = k" by (simp add: get_or_zero_def k)
  have r: "resolve_shift char modifier = (modifier OR MOD_SHIFT, base)"
    by (simp add: resolve_shift_def assms(3))
  have "press_key char modifier = press_release (modifier OR MOD_SHIFT) k"
    using kr by (simp add: press_key_def r g)
  also have "\<dots> = ([[modifier OR MOD_SHIFT, 0, k, 0, 0, 0, 0, 0], [0, 0, 0, 0, 0, 0, 0, 0]], None)"
    using or_shift_range[OF assms(1,2)] kr by (intro press_release_ok) simp_all
  finally show ?thesis using kr g by simp
qed

lemma press_key_plain:
  assumes "0 \<le> modifier" "modifier < 256" "map_of SHIFT_CHARS char = None"
    "map_of KEYMAP char = Some k"
  shows "press_key char modifier =
           ([[modifier, 0, k, 0, 0, 0, 0, 0], [0, 0, 0, 0, 0, 0, 0, 0]], None)"
proof -
  have kr: "0 < k" "k < 256" using KEYMAP_range[OF assms(4)] by simp_all
  have g: "get_or_zero KEYMAP char = k" by (simp add: get_or_zero_def assms(4))
  have r: "resolve_shift char modifier = (modifier, char)"
    by (simp add: resolve_shift_def assms(3))
  have "press_key char modifier = press_release modifier k"
    using kr by (simp add: press_key_def r g)
  then show ?thesis using press_release_ok[OF assms(1,2) kr] by simp
qed

lemma press_key_unmapped:
  assumes "map_of SHIFT_CHARS char = None" "map_of KEYMAP char = None"
  shows "press_key char modifier = ([], None)"
  by (simp add: press_key_def resolve_shift_def get_or_zero_def assms)

lemma press_special_known:
  assumes "0 \<le> modifier" "modifier < 256" "map_of SPECIAL_KEYS (lower key) = Some k"
  shows "press_special key modifier =
           ([[modifier, 0, k, 0, 0, 0, 0, 0], [0, 0, 0, 0, 0, 0, 0, 0]], None)"
proof -
  have kr: "0 < k" "k < 256" using SPECIAL_KEYS_range[OF assms(3)] by simp_all
  have "press_special key modifier = press_release modifier k"
    using kr by (simp add: press_special_def get_or_zero_def assms(3))
  then show ?thesis using press_release_ok[OF assms(1,2) kr] by simp
qed

text \<open>
  Claim C7.  A keyboard command with a modifier byte, on a character that the tables map
  (directly or through SHIFT_CHARS) or on a known special key, writes exactly two reports:
  the press report with a non-zero keycode, then the all-zero release report; and it
  ends without an exception, so nothing stays held.
\<close>

theorem keyboard_command_is_press_then_release:
  assumes "0 \<le> modifier" and "modifier < 256"
  shows "((map_of KEYMAP char \<noteq> None \<or> map_of SHIFT_CHARS char \<noteq> None) \<longrightarrow>
            press_key char modifier =
              ([[fst (resolve_shift char modifier), 0,
                 get_or_zero KEYMAP (snd (resolve_shift char modifier)), 0, 0, 0, 0, 0],
                [0, 0, 0, 0, 0, 0, 0, 0]], None)
            \<and> get_or_zero KEYMAP (snd (resolve_shift char modifier)) \<noteq> 0)
       \<and> (map_of SPECIAL_KEYS (lower key) \<noteq> None \<longrightarrow>
            press_special key modifier =
              ([[modifier, 0, get_or_zero SPECIAL_KEYS (lower key), 0, 0, 0, 0, 0],
                [0, 0, 0, 0, 0, 0, 0, 0]], None)
            \<and> get_or_zero SPECIAL_KEYS (lower key) \<noteq> 0)"
proof -
  have key: "press_key char modifier =
              ([[fst (resolve_shift char modifier), 0,
                 get_or_zero KEYMAP (snd (resolve_shift char modifier)), 0, 0, 0, 0, 0],
                [0, 0, 0, 0, 0, 0, 0, 0]], None)
            \<and> get_or_zero KEYMAP (snd (resolve_shift char modifier)) \<noteq> 0"
    if m: "map_of KEYMAP char \<noteq> None \<or> map_of SHIFT_CHARS char \<noteq> None"
  proof (cases "map_of SHIFT_CHARS char")
    case (Some base)
    then show ?thesis
      using press_key_shifted[OF assms Some] by (simp add: resolve_shift_def)
  next
    case None
    with m obtain k where k: "map_of KEYMAP char = Some k" by auto
    show ?thesis
      using press_key_plain[OF assms None k] KEYMAP_range[OF k]
      by (simp add: resolve_shift_def None get_or_zero_def k)
  qed
  have special: "press_special key modifier =
              ([[modifier, 0, get_or_zero SPECIAL_KEYS (lower key), 0, 0, 0, 0, 0],
                [0, 0, 0, 0, 0, 0, 0, 0]], None)
            \<and> get_or_zero SPECIAL_KEYS (lower key) \<noteq> 0"
    if "map_of SPECIAL_KEYS (lower key) \<noteq> None"
  proof -
    from that obtain k where k: "map_of SPECIAL_KEYS (lower key) = Some k" by auto
    show ?thesis
      using press_special_known[OF assms k] SPECIAL_KEYS_range[OF k]
      by (simp add: get_or_zero_def k)
  qed
  from key special show ?thesis by blast
qed

theorem keyboard_command_is_press_then_release_witness:
  "press_key (CHR ''A'') 1 = ([[3, 0, 4, 0, 0, 0, 0, 0], [0, 0, 0, 0, 0, 0, 0, 0]], None)
   \<and> press_special ''Enter'' 1 = ([[1, 0, 0x28, 0, 0, 0, 0, 0], [0, 0, 0, 0, 0, 0, 0, 0]], None)"
proof -
  have a: "map_of SHIFT_CHARS (CHR ''A'') = Some (CHR ''a'')" by (simp add: SHIFT_CHARS_def)
  have b: "map_of SPECIAL_KEYS (lower ''Enter'') = Some 0x28"
    by code_simp
  have c: "get_or_zero KEYMAP (CHR ''a'') = 4" by (simp add: get_or_zero_def KEYMAP_def)
  have d: "(1::int) OR MOD_SHIFT = 3" by (simp add: MOD_SHIFT_def)
  show ?thesis
    using keyboard_command_is_press_then_release[of 1 "CHR ''A''" "''Enter''"] a b c d
    by (simp add: resolve_shift_def get_or_zero_def)
qed


text \<open>
  Claim C8.  For a character of SHIFT_CHARS, \<open>press_key\<close> writes the keycode of the base
  character with the shift bit set in the modifier, and reading that (keycode, modifier)
  pair back through the tables gives the original character.  For a character in
  neither SHIFT_CHARS nor KEYMAP, \<open>press_key\<close> writes nothing and raises nothing,
  whatever the modifier.
\<close>

theorem shift_chars_round_trip_and_unmapped_dropped:
  "(0 \<le> modifier \<and> modifier < 256 \<and> map_of SHIFT_CHARS char = Some base \<longrightarrow>
      press_key char modifier =
        ([[modifier OR MOD_SHIFT, 0, get_or_zero KEYMAP base, 0, 0, 0, 0, 0],
          [0, 0, 0, 0, 0, 0, 0, 0]], None)
      \<and> get_or_zero KEYMAP base \<noteq> 0
      \<and> (modifier OR MOD_SHIFT) AND MOD_SHIFT = MOD_SHIFT
      \<and> decode_key (get_or_zero KEYMAP base) (modifier OR MOD_SHIFT) = Some char)
   \<and> (map_of SHIFT_CHARS char = None \<and> map_of KEYMAP char = None \<longrightarrow>
        press_key char modifier = ([], None))"
proof -
  have shifted: "press_key char modifier =
        ([[modifier OR MOD_SHIFT, 0, get_or_zero KEYMAP base, 0, 0, 0, 0, 0],
          [0, 0, 0, 0, 0, 0, 0, 0]], None)
      \<and> get_or_zero KEYMAP base \<noteq> 0
      \<and> (modifier OR MOD_SHIFT) AND MOD_SHIFT = MOD_SHIFT
      \<and> decode_key (get_or_zero KEYMAP base) (modifier OR MOD_SHIFT) = Some char"
    if h: "0 \<le> modifier" "modifier < 256" "map_of SHIFT_CHARS char = Some base"
  proof -
    have bit: "(modifier OR MOD_SHIFT) AND MOD_SHIFT = MOD_SHIFT" by (rule or_shift_bit)
    have nz: "MOD_SHIFT \<noteq> 0" by (simp add: MOD_SHIFT_def)
    have "decode_key (get_or_zero KEYMAP base) (modifier OR MOD_SHIFT) = Some char"
      using SHIFT_CHARS_decode[OF h(3)] bit nz by (simp add: decode_key_def)
    with press_key_shifted[OF h] bit show ?thesis by simp
  qed
  have dropped: "press_key char modifier = ([], None)"
    if "map_of SHIFT_CHARS char = None" "map_of KEYMAP char = None"
    using that by (rule press_key_unmapped)
  from shifted dropped show ?thesis by blast
qed

theorem shift_chars_round_trip_and_unmapped_dropped_witness:
  "press_key (CHR ''?'') 0 = ([[2, 0, 0x38, 0, 0, 0, 0, 0], [0, 0, 0, 0, 0, 0, 0, 0]], None)
   \<and> decode_key 0x38 2 = Some (CHR ''?'')
   \<and> map_of SHIFT_CHARS (CHR 0xE9) = None \<and> map_of KEYMAP (CHR 0xE9) = None
   \<and> press_key (CHR 0xE9) 0 = ([], None)"
proof -
  have a: "map_of SHIFT_CHARS (CHR ''?'') = Some (CHR ''/'')" by code_simp
  have b: "get_or_zero KEYMAP (CHR ''/'') = 0x38" by code_simp
  have c: "(0::int) OR MOD_SHIFT = 2" by (simp add: MOD_SHIFT_def)
  have d: "map_of SHIFT_CHARS (CHR 0xE9) = None" by code_simp
  have e: "map_of KEYMAP (CHR 0xE9) = None" by code_simp
  show ?thesis
    using shift_chars_round_trip_and_unmapped_dropped[of 0 "CHR ''?''" "CHR ''/''"]
      shift_chars_round_trip_and_unmapped_dropped[of 0 "CHR 0xE9" "CHR ''/''"] a b c d e
    by simp
qed

lemma move_steps_props:
  "move_steps dx dy = (rs, r) \<Longrightarrow>
     r = None
     \<and> (\<forall>(b, x, y) \<in> set rs. b = 0 \<and> -127 \<le> x \<and> x \<le> 127 \<and> -127 \<le> y \<and> y \<le> 127)
     \<and> sum_list (map (\<lambda>(b, x, y). x) rs) = dx
     \<and> sum_list (map (\<lambda>(b, x, y). y) rs) = dy"
proof (induction dx dy arbitrary: rs r rule: move_steps.induct)
  case (1 dx dy)
  show ?case
  proof (cases "\<bar>dx\<bar> > 0 \<or> \<bar>dy\<bar> > 0")
    case False
    with "1.prems" show ?thesis by (simp add: move_steps.simps)
  next
    case True
    let ?sx = "max (-127) (min 127 dx)" and ?sy = "max (-127) (min 127 dy)"
    have mv: "move ?sx ?sy = ([(0, ?sx, ?sy)], None)"
      by (simp add: move_ok clamp127_def)
    obtain rs' r' where rec: "move_steps (dx - ?sx) (dy - ?sy) = (rs', r')"
      by (cases "move_steps (dx - ?sx) (dy - ?sy)")
    from True "1.prems" mv rec have eq: "rs = (0, ?sx, ?sy) # rs'" "r = r'"
      by (simp_all add: move_steps.simps[of dx dy] Let_def)
    have ih: "r' = None
       \<and> (\<forall>(b, x, y) \<in> set rs'. b = 0 \<and> -127 \<le> x \<and> x \<le> 127 \<and> -127 \<le> y \<and> y \<le> 127)
       \<and> sum_list (map (\<lambda>(b, x, y). x) rs') = dx - ?sx
       \<and> sum_list (map (\<lambda>(b, x, y). y) rs') = dy - ?sy"
      using "1.IH"[OF True refl refl mv[symmetric] refl rec] .
    with eq show ?thesis by auto
  qed
qed

lemma move_steps_first:
  assumes "\<bar>dx\<bar> > 0 \<or> \<bar>dy\<bar> > 0"
  shows "fst (move_steps dx dy) =
           (0, max (-127) (min 127 dx), max (-127) (min 127 dy))
           # fst (move_steps (dx - max (-127) (min 127 dx)) (dy - max (-127) (min 127 dy)))"
proof -
  let ?sx = "max (-127) (min 127 dx)" and ?sy = "max (-127) (min 127 dy)"
  have mv: "move ?sx ?sy = ([(0, ?sx, ?sy)], None)"
    by (simp add: move_ok clamp127_def)
  show ?thesis
    using assms mv by (simp add: move_steps.simps[of dx dy] Let_def split: prod.splits)
qed

lemma move_steps_two:
  assumes "\<bar>dx\<bar> > 127 \<or> \<bar>dy\<bar> > 127"
  shows "2 \<le> length (fst (move_steps dx dy))"
proof -
  let ?sx = "max (-127) (min 127 dx)" and ?sy = "max (-127) (min 127 dy)"
  from assms have one: "\<bar>dx\<bar> > 0 \<or> \<bar>dy\<bar> > 0" by linarith
  from assms have two: "\<bar>dx - ?sx\<bar> > 0 \<or> \<bar>dy - ?sy\<bar> > 0"
    by (auto simp: max_def min_def)
  show ?thesis
    by (simp add: move_steps_first[OF one] move_steps_first[OF two])
qed

text \<open>
  Claim C9.  \<open>move_to\<close> from a known position: every report is a pure motion report
  with both components in [-127, 127], the components sum to the requested delta
  exactly, no exception ends the loop, and a delta with a component beyond 127 in
  magnitude takes at least two reports.
\<close>

theorem move_to_decomposes_large_delta:
  assumes "move_to target_x target_y width height (Some current_x) (Some current_y)
             = (rs, r)"
  shows "r = None
     \<and> (\<forall>(b, x, y) \<in> set rs. b = 0 \<and> -127 \<le> x \<and> x \<le> 127 \<and> -127 \<le> y \<and> y \<le> 127)
     \<and> sum_list (map (\<lambda>(b, x, y). x) rs) = target_x - current_x
     \<and> sum_list (map (\<lambda>(b, x, y). y) rs) = target_y - current_y
     \<and> (\<bar>target_x - current_x\<bar> > 127 \<or> \<bar>target_y - current_y\<bar> > 127 \<longrightarrow> 2 \<le> length rs)"
proof -
  from assms have ms: "move_steps (target_x - current_x) (target_y - current_y) = (rs, r)"
    by (simp add: move_to_def)
  have "2 \<le> length rs" if "\<bar>target_x - current_x\<bar> > 127 \<or> \<bar>target_y - current_y\<bar> > 127"
    using move_steps_two[OF that] ms by simp
  with move_steps_props[OF ms] show ?thesis by blast
qed

theorem move_to_decomposes_large_delta_witness:
  "move_to 300 (-10) 1920 1080 (Some 0) (Some 0)
     = ([(0, 127, -10), (0, 127, 0), (0, 46, 0)], None)
   \<and> \<bar>300 - (0::int)\<bar> > 127
   \<and> sum_list (map (\<lambda>(b, x, y). x) [(0, 127, -10), (0, 127, 0), (0::int, 46::int, 0::int)]) = 300 - 0
   \<and> 2 \<le> length [(0, 127, -10), (0, 127, 0), (0::int, 46::int, 0::int)]"
proof -
  have h: "move_to 300 (-10) 1920 1080 (Some 0) (Some 0)
             = ([(0, 127, -10), (0, 127, 0), (0, 46, 0)], None)"
    by (simp add: move_to_def move_steps.simps move_ok clamp127_def)
  show ?thesis
    using move_to_decomposes_large_delta[OF h] h by simp
qed

section \<open>Properties of the float model\<close>

lemma round_half_even_of_int [simp]: "round_half_even (of_int m) = m"
  by (simp add: round_half_even_def)

lemma round_half_even_close: "\<bar>of_int (round_half_even m) - m\<bar> \<le> 1 / 2"
  unfolding round_half_even_def Let_def by (auto simp: abs_if) linarith+

lemma ulp64_pos: "0 < ulp64 x"
  by (simp add: ulp64_def)

lemma rnd64_close: "\<bar>rnd64 x - x\<bar> \<le> ulp64 x / 2"
proof (cases "x = 0")
  case True
  then show ?thesis using ulp64_pos[of x] by (simp add: rnd64_def)
next
  case False
  have "rnd64 x - x = (of_int (round_half_even (x / ulp64 x)) - x / ulp64 x) * ulp64 x"
    using False ulp64_pos[of x] by (simp add: rnd64_def field_simps)
  then have "\<bar>rnd64 x - x\<bar> = \<bar>of_int (round_half_even (x / ulp64 x)) - x / ulp64 x\<bar> * ulp64 x"
    using ulp64_pos[of x] by (simp add: abs_mult)
  also have "\<dots> \<le> (1 / 2) * ulp64 x"
    using round_half_even_close[of "x / ulp64 x"] ulp64_pos[of x]
    by (intro mult_right_mono) simp_all
  finally show ?thesis by simp
qed

lemma exponent64_int:
  assumes "k \<noteq> 0" "\<bar>k\<bar> < 2 ^ 53"
  shows "0 \<le> exponent64 (of_int k) \<and> exponent64 (of_int k) \<le> 52"
proof -
  have k1: "1 \<le> \<bar>real_of_int k\<bar>" using assms(1) by (simp flip: of_int_abs)
  have k2: "\<bar>real_of_int k\<bar> < 2 powr 53"
    using assms(2) by (simp flip: of_int_abs)
  have "0 \<le> log 2 \<bar>real_of_int k\<bar>" using k1 by simp
  moreover have "log 2 \<bar>real_of_int k\<bar> < 53"
    using k1 k2 by (simp add: log_less_iff)
  ultimately show ?thesis by (simp add: exponent64_def floor_less_iff le_floor_iff)
qed

lemma rnd64_of_int:
  assumes "\<bar>k\<bar> < 2 ^ 53"
  shows "rnd64 (of_int k) = of_int k"
proof (cases "k = 0")
  case True
  then show ?thesis by (simp add: rnd64_def)
next
  case False
  define j where "j = nat (52 - exponent64 (of_int k))"
  have e: "exponent64 (of_int k) - 52 = - int j"
    using exponent64_int[OF False assms] by (simp add: j_def)
  have u: "ulp64 (of_int k) = 1 / 2 ^ j"
    by (simp add: ulp64_def e powr_minus_divide powr_realpow)
  have "real_of_int k / ulp64 (of_int k) = of_int (k * 2 ^ j)" by (simp add: u)
  then have "round_half_even (real_of_int k / ulp64 (of_int k)) = k * 2 ^ j"
    by (simp only: round_half_even_of_int)
  then show ?thesis using False by (simp add: rnd64_def u)
qed

lemma ulp64_le:
  assumes "1 \<le> \<bar>x\<bar>"
  shows "ulp64 x \<le> \<bar>x\<bar> / 2 ^ 52"
proof -
  have "0 \<le> log 2 \<bar>x\<bar>" using assms by simp
  then have e: "exponent64 x = \<lfloor>log 2 \<bar>x\<bar>\<rfloor>" by (simp add: exponent64_def)
  have "2 powr of_int \<lfloor>log 2 \<bar>x\<bar>\<rfloor> \<le> 2 powr (log 2 \<bar>x\<bar>)"
    by (intro powr_mono) simp_all
  also have "\<dots> = \<bar>x\<bar>" using assms by simp
  finally have "2 powr of_int (exponent64 x) \<le> \<bar>x\<bar>" by (simp add: e)
  moreover have "ulp64 x = 2 powr of_int (exponent64 x) / 2 ^ 52"
    by (simp add: ulp64_def powr_diff)
  ultimately show ?thesis by (simp add: divide_right_mono)
qed

lemma ulp64_le_general:
  assumes "x \<noteq> 0"
  shows "ulp64 x \<le> \<bar>x\<bar> / 2 ^ 52 + 1"
proof (cases "1 \<le> \<bar>x\<bar>")
  case True
  with ulp64_le[OF True] show ?thesis by simp
next
  case False
  then have "log 2 \<bar>x\<bar> \<le> 0"
    using assms by (simp add: log_le_zero_cancel_iff)
  then have "exponent64 x \<le> 0" by (simp add: exponent64_def floor_le_iff)
  then have "ulp64 x \<le> 2 powr 0"
    unfolding ulp64_def by (intro powr_mono) simp_all
  then show ?thesis by (simp add: add_increasing)
qed

lemma rnd64_abs_le: "\<bar>rnd64 x\<bar> \<le> 2 * \<bar>x\<bar> + 1"
proof (cases "x = 0")
  case True
  then show ?thesis by (simp add: rnd64_def)
next
  case False
  have "\<bar>rnd64 x\<bar> \<le> \<bar>x\<bar> + \<bar>rnd64 x - x\<bar>" by simp
  also have "\<dots> \<le> \<bar>x\<bar> + ulp64 x / 2" using rnd64_close[of x] by simp
  also have "\<dots> \<le> \<bar>x\<bar> + (\<bar>x\<bar> / 2 ^ 52 + 1) / 2"
    using ulp64_le_general[OF False] by simp
  also have "\<dots> \<le> 2 * \<bar>x\<bar> + 1" by (simp add: field_simps)
  finally show ?thesis .
qed

lemma rnd64_ge_half:
  assumes "1 \<le> x"
  shows "x / 2 \<le> rnd64 x"
proof -
  have "x - rnd64 x \<le> \<bar>rnd64 x - x\<bar>" by simp
  also have "\<dots> \<le> ulp64 x / 2" by (rule rnd64_close)
  also have "\<dots> \<le> (\<bar>x\<bar> / 2 ^ 52) / 2" using ulp64_le[of x] assms by simp
  also have "\<dots> \<le> x / 2" using assms by (simp add: field_simps)
  finally show ?thesis by simp
qed

subsection \<open>Exact cases\<close>

lemma fits64_small: "\<bar>x\<bar> \<le> 2 ^ 53 \<Longrightarrow> fits64 x"
  by (simp add: fits64_def)

lemma float_of_int_exact: "\<bar>k\<bar> < 2 ^ 53 \<Longrightarrow> float_of_int k = Inr (of_int k)"
  using fits64_small[of "of_int k"] by (simp add: float_of_int_def rnd64_of_int flip: of_int_abs)

lemma sqrt64_square:
  assumes "0 \<le> k" "k < 2 ^ 53"
  shows "sqrt64 (of_int (k ^ 2)) = of_int k"
  using assms rnd64_of_int[of k] by (simp add: sqrt64_def)

section \<open>Properties of agent.py\<close>

subsection \<open>The exceptions of the motion arithmetic\<close>

lemma float_of_int_exn: "float_of_int n = Inl e \<Longrightarrow> arithmetic_exn e"
  by (auto simp: float_of_int_def arithmetic_exn_def split: if_splits)

lemma py_int_exn: "py_int x = Inl e \<Longrightarrow> arithmetic_exn e"
  by (auto simp: py_int_def arithmetic_exn_def split: pyfloat.splits)

lemma scale_component_exn: "scale_component d distance speed = Inl e \<Longrightarrow> arithmetic_exn e"
  by (auto simp: scale_component_def split: sum.splits dest: float_of_int_exn py_int_exn)

lemma normalize_scale_exn: "normalize_scale dx dy distance speed = Inl e \<Longrightarrow> arithmetic_exn e"
  by (auto simp: normalize_scale_def split: sum.splits if_splits dest: scale_component_exn)

lemma distance_of_exn: "distance_of env dx dy = Inl e \<Longrightarrow> arithmetic_exn e"
  by (auto simp: distance_of_def int_pow_half_def split: sum.splits dest: float_of_int_exn)

lemma move_vector_exn: "move_vector env a target speed = Inl e \<Longrightarrow> arithmetic_exn e"
  by (auto simp: move_vector_def Let_def split: option.splits sum.splits
      dest: distance_of_exn normalize_scale_exn)

lemma move_vector_cong:
  assumes "estimated_cursor a = estimated_cursor b" "screen_width a = screen_width b"
    "screen_height a = screen_height b"
  shows "move_vector env a target speed = move_vector env b target speed"
  using assms by (simp add: move_vector_def split: option.splits)

subsection \<open>What the device operations of the agent return\<close>

lemma press_key_no_modifier: "snd (press_key char MOD_NONE) = None"
proof (cases "map_of SHIFT_CHARS char")
  case (Some base)
  show ?thesis using press_key_shifted[of MOD_NONE char base] Some by (simp add: MOD_NONE_def)
next
  case None
  show ?thesis
  proof (cases "map_of KEYMAP char")
    case (Some k)
    show ?thesis using press_key_plain[of MOD_NONE char k] None Some by (simp add: MOD_NONE_def)
  next
    case n: None
    show ?thesis by (simp add: press_key_unmapped[OF None n])
  qed
qed

lemma type_string_ok: "snd (type_string s) = None"
proof (induction s)
  case Nil
  show ?case by simp
next
  case (Cons c cs)
  obtain rs where "press_key c MOD_NONE = (rs, None)"
    using press_key_no_modifier[of c] by (cases "press_key c MOD_NONE") simp
  with Cons show ?case by (cases "type_string cs") simp
qed

lemma press_special_no_modifier: "snd (press_special key MOD_NONE) = None"
proof (cases "map_of SPECIAL_KEYS (lower key)")
  case None
  then show ?thesis by (simp add: press_special_def get_or_zero_def)
next
  case (Some k)
  show ?thesis using press_special_known[of MOD_NONE key k] Some by (simp add: MOD_NONE_def)
qed

lemma click_ok: "snd (click button) = None"
proof -
  have "button_code button \<in> {1, 2, 4}"
    by (auto simp: button_code_def split: option.splits if_splits)
  then show ?thesis
    by (auto simp: click_def mouse_send_report_def clamp127_def)
qed

lemma agent_click_eq:
  "agent_click button a = (None, a\<lparr>mouse_dev := mouse_dev a @ fst (click button)\<rparr>)"
  using click_ok[of button] by (cases "click button") (simp add: agent_click_def)

lemma type_text_eq:
  "type_text s a = (None, a\<lparr>keyboard_dev := keyboard_dev a @ fst (type_string s)\<rparr>)"
  using type_string_ok[of s] by (cases "type_string s") (simp add: type_text_def)

lemma agent_press_special_eq:
  "agent_press_special key a =
     (None, a\<lparr>keyboard_dev := keyboard_dev a @ fst (press_special key MOD_NONE)\<rparr>)"
  using press_special_no_modifier[of key]
  by (cases "press_special key MOD_NONE") (simp add: agent_press_special_def)

lemma move_cursor_toward_eq:
  "move_cursor_toward env target speed a =
     (case move_vector env a target (speed_or_default speed a) of
        Inl e \<Rightarrow> (Some e, a)
      | Inr mv \<Rightarrow>
          (None,
           case estimated_cursor a of
             Some cur \<Rightarrow>
               a\<lparr>mouse_dev := mouse_dev a @ [(0, clamp127 (fst mv), clamp127 (snd mv))],
                 estimated_cursor := Some (Point (pt_x cur + fst mv) (pt_y cur + snd mv))\<rparr>
           | None \<Rightarrow>
               a\<lparr>mouse_dev := mouse_dev a @ [(0, clamp127 (fst mv), clamp127 (snd mv))]\<rparr>))"
  by (simp add: move_cursor_toward_def move_ok Let_def split: prod.splits option.splits sum.splits)

lemma move_cursor_toward_exn:
  "fst (move_cursor_toward env target speed a) = Some e \<Longrightarrow> arithmetic_exn e"
  by (auto simp: move_cursor_toward_eq split: sum.splits dest: move_vector_exn)

lemma move_cursor_toward_frame:
  "iteration (snd (move_cursor_toward env target speed a)) = iteration a"
  "callback_calls (snd (move_cursor_toward env target speed a)) = callback_calls a"
  "vision_calls (snd (move_cursor_toward env target speed a)) = vision_calls a"
  "keyboard_dev (snd (move_cursor_toward env target speed a)) = keyboard_dev a"
  "(estimated_cursor (snd (move_cursor_toward env target speed a)) = None)
     = (estimated_cursor a = None)"
  by (simp_all add: move_cursor_toward_eq split: option.splits sum.splits)

lemma notify_ok: "callback_never_raises cb \<Longrightarrow> fst (notify cb analysis action a) = None"
  by (simp add: notify_def callback_never_raises_def split: option.splits)

lemma notify_then_continue_ok:
  assumes "callback_never_raises cb" and "fst ra = None"
  shows "\<exists>a'. notify_then_continue cb c analysis action ra = Continue c a'"
proof -
  obtain a where ra: "ra = (None, a)" using assms(2) by (cases ra) simp
  obtain a' where "notify cb analysis action a = (None, a')"
    using notify_ok[OF assms(1), of analysis action a] by (cases "notify cb analysis action a") simp
  then show ?thesis by (simp add: notify_then_continue_def ra)
qed

lemma notify_then_continue_cases:
  assumes "callback_never_raises cb"
  shows "(\<exists>a'. notify_then_continue cb c analysis action ra = Continue c a')
       \<or> (\<exists>e. fst ra = Some e \<and> notify_then_continue cb c analysis action ra = Propagate e (snd ra))"
proof (cases "fst ra")
  case None
  then show ?thesis using notify_then_continue_ok[OF assms None] by blast
next
  case (Some e)
  then show ?thesis by (cases ra) (simp add: notify_then_continue_def)
qed

subsection \<open>One pass through the loop body\<close>

lemma execute_action_not_done:
  assumes "callback_never_raises cb" and "suggested_action analysis \<noteq> ''done''"
  shows "(\<exists>c' a'. execute_action env cb c analysis a = Continue c' a')
       \<or> (\<exists>e a'. execute_action env cb c analysis a = Propagate e a' \<and> arithmetic_exn e)"
proof -
  have ok: "\<exists>c' a'. notify_then_continue cb c0 analysis action ra = Continue c' a'"
    if "fst ra = None" for c0 action ra
    using notify_then_continue_ok[OF assms(1) that] by blast
  have mv: "(\<exists>c' a'. notify_then_continue cb c0 analysis action
                (move_cursor_toward env target None a) = Continue c' a')
       \<or> (\<exists>e a'. notify_then_continue cb c0 analysis action
                (move_cursor_toward env target None a) = Propagate e a' \<and> arithmetic_exn e)"
    for c0 action target
    using notify_then_continue_cases[OF assms(1), of c0 analysis action
        "move_cursor_toward env target None a"]
      move_cursor_toward_exn[of env target None a]
    by blast
  show ?thesis
  proof (cases "suggested_action analysis = ''move'' \<and> target_position analysis \<noteq> None")
    case True
    then obtain target where t: "target_position analysis = Some target" by auto
    show ?thesis
      using mv[of "c @ note_head (iteration a) @ ''Moved toward '' @ target_description analysis"
          "''move''" target] True t
      by (simp add: execute_action_def Let_def)
  next
    case False
    then show ?thesis
      unfolding execute_action_def Let_def
      using assms(2)
      by (auto split: option.splits list.splits
          simp: ok agent_click_eq type_text_eq agent_press_special_eq)
  qed
qed

lemma execute_action_not_done_defined:
  assumes "callback_never_raises cb" and "suggested_action analysis \<noteq> ''done''"
    and "suggested_action analysis = ''move'' \<longrightarrow>
           (\<forall>target. target_position analysis = Some target \<longrightarrow>
              (\<exists>mv. move_vector env a target (move_speed a) = Inr mv))"
  shows "\<exists>c' a'. execute_action env cb c analysis a = Continue c' a'"
proof -
  have ok: "\<exists>c' a'. notify_then_continue cb c0 analysis action ra = Continue c' a'"
    if "fst ra = None" for c0 action ra
    using notify_then_continue_ok[OF assms(1) that] by blast
  have mv: "fst (move_cursor_toward env target None a) = None"
    if "suggested_action analysis = ''move''" "target_position analysis = Some target"
    for target
    using assms(3) that
    by (auto simp: move_cursor_toward_eq speed_or_default_def)
  show ?thesis
    unfolding execute_action_def Let_def
    using assms(2)
    by (simp split: option.splits list.splits
        add: ok mv agent_click_eq type_text_eq agent_press_special_eq)
qed

lemma execute_action_done:
  assumes "callback_never_raises cb" and "suggested_action analysis = ''done''"
  shows "\<exists>a'. execute_action env cb c analysis a =
           Return \<lparr>success = True, iterations = iteration a, result_history = history a,
                   error = None\<rparr> a'"
proof (cases cb)
  case None
  then show ?thesis using assms(2) by (simp add: execute_action_def notify_def)
next
  case (Some f)
  with assms(1) have "f (iteration a) analysis ''done'' = None"
    by (simp add: callback_never_raises_def)
  with Some assms(2) show ?thesis by (simp add: execute_action_def notify_def)
qed

text \<open>The agent that \<open>execute_action\<close> receives in an iteration whose capture and judgment
  succeed.\<close>

lemma iteration_body_eq:
  assumes "capture env (iteration a + 1) = Inr frame"
    and "analyze env (iteration a + 1) frame task c = Inr analysis"
  shows "iteration_body env cb task c a =
           execute_action env cb c analysis
             (a\<lparr>iteration := iteration a + 1,
                vision_calls := vision_calls a @ [(frame, task, c)],
                history := history a @ [analysis],
                estimated_cursor := observed_estimate analysis a\<rparr>)"
  using assms unfolding iteration_body_def Let_def observed_estimate_def
  by (simp split: option.splits)

lemma iteration_body_not_done:
  assumes "callback_never_raises cb" and "judge_not_done env task (iteration a + 1)"
  shows "(\<exists>c' a'. iteration_body env cb task c a = Continue c' a')
       \<or> (\<exists>e a'. iteration_body env cb task c a = Propagate e a' \<and> arithmetic_exn e)"
proof -
  from assms(2) obtain frame where cap: "capture env (iteration a + 1) = Inr frame"
    by (auto simp: judge_not_done_def)
  from assms(2) obtain analysis where an:
    "analyze env (iteration a + 1) frame task c = Inr analysis"
    "suggested_action analysis \<noteq> ''done''"
    unfolding judge_not_done_def by blast
  show ?thesis
    unfolding iteration_body_eq[OF cap an(1)]
    by (rule execute_action_not_done[OF assms(1) an(2)])
qed

lemma iteration_body_done:
  assumes "callback_never_raises cb" and "judge_done env task (iteration a + 1)"
  shows "\<exists>res a'. iteration_body env cb task c a = Return res a' \<and> success res
            \<and> iterations res = iteration a + 1 \<and> error res = None"
proof -
  from assms(2) obtain frame where cap: "capture env (iteration a + 1) = Inr frame"
    by (auto simp: judge_done_def)
  from assms(2) obtain analysis where an:
    "analyze env (iteration a + 1) frame task c = Inr analysis"
    "suggested_action analysis = ''done''"
    unfolding judge_done_def by blast
  let ?a4 = "a\<lparr>iteration := iteration a + 1,
                vision_calls := vision_calls a @ [(frame, task, c)],
                history := history a @ [analysis],
                estimated_cursor := observed_estimate analysis a\<rparr>"
  from execute_action_done[OF assms(1) an(2), of env c ?a4] obtain a' where
    "execute_action env cb c analysis ?a4 =
       Return \<lparr>success = True, iterations = iteration ?a4, result_history = history ?a4,
               error = None\<rparr> a'" by blast
  then show ?thesis
    unfolding iteration_body_eq[OF cap an(1)] by simp
qed

subsection \<open>Termination of the loop\<close>

lemma execute_loop_exhausts:
  "callback_never_raises cb \<Longrightarrow>
   (\<forall>i. iteration a < i \<and> i \<le> max_iterations a \<longrightarrow> judge_not_done env task i) \<Longrightarrow>
   iteration a \<le> max_iterations a \<Longrightarrow>
   (\<exists>res a'. execute_loop env cb task c a = (Inr res, a') \<and> \<not> success res
      \<and> iterations res = max_iterations a \<and> error res = Some ''Max iterations reached'')
   \<or> (\<exists>e a'. execute_loop env cb task c a = (Inl e, a') \<and> arithmetic_exn e)"
proof (induction env cb task c a rule: execute_loop.induct)
  case (1 env cb task c a)
  show ?case
  proof (cases "iteration a < max_iterations a")
    case False
    with "1.prems"(3) have "iteration a = max_iterations a" by simp
    then show ?thesis by (simp add: execute_loop.simps[of env cb task c a])
  next
    case True
    have nd: "judge_not_done env task (iteration a + 1)" using "1.prems"(2) True by simp
    from iteration_body_not_done[OF "1.prems"(1) nd, of c]
    consider c' a' where "iteration_body env cb task c a = Continue c' a'"
      | e a' where "iteration_body env cb task c a = Propagate e a'" "arithmetic_exn e"
      by blast
    then show ?thesis
    proof cases
      case 1
      note body = 1
      from iteration_body_counters[OF body] have
        cnt: "iteration a' = iteration a + 1" "max_iterations a' = max_iterations a" by simp_all
      have "(\<exists>res a''. execute_loop env cb task c' a' = (Inr res, a'') \<and> \<not> success res
          \<and> iterations res = max_iterations a' \<and> error res = Some ''Max iterations reached'')
        \<or> (\<exists>e a''. execute_loop env cb task c' a' = (Inl e, a'') \<and> arithmetic_exn e)"
        using "1.IH"[OF True body "1.prems"(1)] "1.prems"(2) True cnt by simp
      then show ?thesis
        using True body cnt by (simp add: execute_loop.simps[of env cb task c a])
    next
      case 2
      then show ?thesis using True by (simp add: execute_loop.simps[of env cb task c a])
    qed
  qed
qed

lemma execute_loop_done:
  "callback_never_raises cb \<Longrightarrow> iteration a < k \<Longrightarrow> k \<le> max_iterations a \<Longrightarrow>
   (\<forall>i. iteration a < i \<and> i < k \<longrightarrow> judge_not_done env task i) \<Longrightarrow>
   judge_done env task k \<Longrightarrow>
   (\<exists>res a'. execute_loop env cb task c a = (Inr res, a') \<and> success res
      \<and> iterations res = k \<and> error res = None)
   \<or> (\<exists>e a'. execute_loop env cb task c a = (Inl e, a') \<and> arithmetic_exn e)"
proof (induction env cb task c a rule: execute_loop.induct)
  case (1 env cb task c a)
  from "1.prems"(2,3) have True: "iteration a < max_iterations a" by simp
  show ?case
  proof (cases "iteration a + 1 = k")
    case True
    with "1.prems"(5) have "judge_done env task (iteration a + 1)" by simp
    from iteration_body_done[OF "1.prems"(1) this, of c] obtain res a' where
      "iteration_body env cb task c a = Return res a'" "success res"
      "iterations res = iteration a + 1" "error res = None" by blast
    with True \<open>iteration a < max_iterations a\<close> show ?thesis
      by (simp add: execute_loop.simps[of env cb task c a])
  next
    case False
    with "1.prems"(2) have lt: "iteration a + 1 < k" by simp
    have nd: "judge_not_done env task (iteration a + 1)" using "1.prems"(4) lt by simp
    from iteration_body_not_done[OF "1.prems"(1) nd, of c]
    consider c' a' where "iteration_body env cb task c a = Continue c' a'"
      | e a' where "iteration_body env cb task c a = Propagate e a'" "arithmetic_exn e"
      by blast
    then show ?thesis
    proof cases
      case 1
      note body = 1
      from iteration_body_counters[OF body] have
        cnt: "iteration a' = iteration a + 1" "max_iterations a' = max_iterations a" by simp_all
      have "(\<exists>res a''. execute_loop env cb task c' a' = (Inr res, a'') \<and> success res
          \<and> iterations res = k \<and> error res = None)
        \<or> (\<exists>e a''. execute_loop env cb task c' a' = (Inl e, a'') \<and> arithmetic_exn e)"
        using "1.IH"[OF True body "1.prems"(1)] "1.prems"(3,4,5) lt cnt by simp
      then show ?thesis
        using True body by (simp add: execute_loop.simps[of env cb task c a])
    next
      case 2
      then show ?thesis using True by (simp add: execute_loop.simps[of env cb task c a])
    qed
  qed
qed

subsection \<open>Exact float computations\<close>

lemma distance_of_exact:
  assumes "libm_pow_half env = sqrt64" "0 \<le> r" "r < 2 ^ 26" "dx ^ 2 + dy ^ 2 = r ^ 2"
  shows "distance_of env dx dy = Inr (of_int r)"
proof -
  have "r ^ 2 < (2 ^ 26) ^ 2" using assms(2,3) by (intro power_strict_mono) simp_all
  then have b: "\<bar>r ^ 2\<bar> < 2 ^ 53" by simp
  have f: "float_of_int (r ^ 2) = Inr (of_int (r ^ 2))" by (rule float_of_int_exact[OF b])
  have "sqrt64 (of_int (r ^ 2)) = of_int r"
    using assms(2,3) by (intro sqrt64_square) simp_all
  then have s: "sqrt64 ((real_of_int r)\<^sup>2) = real_of_int r" by simp
  show ?thesis
    using assms(2) by (auto simp: distance_of_def int_pow_half_def assms(1,4) f s power2_eq_1_iff)
qed

lemma scale_component_unit:
  assumes "0 < r" "r < 2 ^ 53" "\<bar>s\<bar> < 2 ^ 53"
  shows "scale_component r (of_int r) s = Inr s"
proof -
  have r: "float_of_int r = Inr (of_int r)" using assms(1,2) by (intro float_of_int_exact) simp
  have s: "float_of_int s = Inr (of_int s)" by (rule float_of_int_exact[OF assms(3)])
  have one: "rnd64 1 = 1" using rnd64_of_int[of 1] by simp
  have d: "float_div (of_int r) (of_int r) = Finite 1"
    using assms(1) by (simp add: float_div_def fits64_def one)
  have m: "float_mul (Finite 1) (of_int s) = Finite (of_int s)"
    using fits64_small[of "of_int s"] assms(3) rnd64_of_int[OF assms(3)]
    by (simp add: float_mul_def flip: of_int_abs)
  show ?thesis by (simp add: scale_component_def r s d m py_int_def)
qed

lemma scale_component_zero:
  assumes "distance \<noteq> 0" "\<bar>s\<bar> < 2 ^ 53"
  shows "scale_component 0 distance s = Inr 0"
proof -
  have z: "float_of_int 0 = Inr 0" using float_of_int_exact[of 0] by simp
  have s: "float_of_int s = Inr (of_int s)" by (rule float_of_int_exact[OF assms(2)])
  have zero: "rnd64 0 = 0" by (simp add: rnd64_def)
  show ?thesis
    by (simp add: scale_component_def z s float_div_def float_mul_def fits64_def zero py_int_def)
qed

lemma scripted_pow: "libm_pow_half (scripted script) = sqrt64"
  by (simp add: scripted_def)

subsection \<open>Concrete runs\<close>

lemmas run_defs = execute_task_def iteration_body_def execute_action_def
  notify_then_continue_def notify_def scripted_def constant_script_def done_at_def
  scripted_judgment_def init_agent_def

text \<open>
  Claim C1, as stated, at a concrete run: with cap 1 and a judge that always answers
  \<open>'error'\<close>, the error string of the result starts with a capital M, so it is not the
  string \<open>"max iterations reached"\<close> of the claim.
\<close>

theorem max_iterations_message_counterexample:
  "fst (execute_task (scripted (constant_script (scripted_judgment ''error'' None None))) None
          ''click center'' (init_agent (1920, 1080) 40 1))
     = Inr \<lparr>success = False, iterations = 1,
            result_history = [scripted_judgment ''error'' None None],
            error = Some ''Max iterations reached''\<rparr>
   \<and> Some ''Max iterations reached'' \<noteq> Some ''max iterations reached''"
  by (simp add: run_defs execute_loop.simps)

text \<open>
  Claim C6.  When the capture raises on the first iteration (the cap being at least 1),
  \<open>execute_task\<close> returns at once with success = False, iterations = 1 and the error
  \<open>"Capture failed: "\<close> followed by the text of the exception.  The agent returned is
  the initial one but for the iteration counter and the emptied history: the vision
  provider and the callback have not been called, and nothing was written to a device.
\<close>

theorem capture_failure_on_first_iteration:
  assumes "0 < max_iterations a" and "capture env 1 = Inl e"
  shows "execute_task env cb task a =
     (Inr \<lparr>success = False, iterations = 1, result_history = [],
           error = Some (''Capture failed: '' @ exn_str e)\<rparr>,
      a\<lparr>iteration := 1, history := []\<rparr>)"
  using assms by (simp add: execute_task_def execute_loop.simps iteration_body_def)

text \<open>
  Claim C6 for a capture that always raises.
\<close>

theorem capture_failure_on_first_iteration_witness:
  "0 < max_iterations (init_agent (1920, 1080) 40 50)
   \<and> capture broken_capture 1 = Inl (Raised ''no device'')
   \<and> execute_task broken_capture None ''click center'' (init_agent (1920, 1080) 40 50) =
     (Inr \<lparr>success = False, iterations = 1, result_history = [],
           error = Some ''Capture failed: no device''\<rparr>,
      (init_agent (1920, 1080) 40 50)\<lparr>iteration := 1, history := []\<rparr>)"
proof -
  have a: "0 < max_iterations (init_agent (1920, 1080) 40 50)" by (simp add: init_agent_def)
  have b: "capture broken_capture 1 = Inl (Raised ''no device'')" by (simp add: broken_capture_def)
  show ?thesis
    using capture_failure_on_first_iteration[OF a b, of None "''click center''"] a b by simp
qed

text \<open>
  Claim C5, as stated, at a concrete run: with a callback that raises, a judge that
  answers \<open>'click'\<close> and cap 3, \<open>execute_task\<close> does not return a result; the exception
  of the callback leaves it on the first iteration.
\<close>

theorem callback_exception_counterexample:
  "fst (execute_task (scripted (constant_script (scripted_judgment ''click'' None None)))
          (Some raising_callback) ''click center'' (init_agent (1920, 1080) 40 3))
     = Inl (Raised ''viewer closed'')"
  by (simp add: run_defs execute_loop.simps raising_callback_def agent_click_eq Let_def)

text \<open>
  Claim C4, amended.  A judgment whose action is none of the recognized ones falls
  through the whole \<open>if\<close>/\<open>elif\<close> chain: nothing is written to the keyboard or the
  mouse, the loop goes on to the next iteration, and the running context is left as it
  was (no note is appended).
\<close>

theorem unrecognized_action_skips_iteration:
  assumes "suggested_action analysis \<notin> set recognized_actions"
    and "capture env (iteration a + 1) = Inr frame"
    and "analyze env (iteration a + 1) frame task c = Inr analysis"
  shows "\<exists>a'. iteration_body env cb task c a = Continue c a'
           \<and> keyboard_dev a' = keyboard_dev a \<and> mouse_dev a' = mouse_dev a"
  using assms unfolding iteration_body_def Let_def execute_action_def recognized_actions_def
  by (simp split: option.splits)

text \<open>
  The amended claim C4 for the action \<open>'scroll'\<close>.
\<close>

theorem unrecognized_action_skips_iteration_witness:
  "suggested_action (scripted_judgment ''scroll'' None None) \<notin> set recognized_actions
   \<and> (\<exists>a'. iteration_body (scripted (constant_script (scripted_judgment ''scroll'' None None)))
             (Some silent_callback) ''click center'' [] (init_agent (1920, 1080) 40 3)
           = Continue [] a' \<and> keyboard_dev a' = [] \<and> mouse_dev a' = [])"
proof -
  let ?a = "init_agent (1920, 1080) 40 3"
  let ?an = "scripted_judgment ''scroll'' None None"
  let ?env = "scripted (constant_script ?an)"
  have h1: "suggested_action ?an \<notin> set recognized_actions"
    by (simp add: scripted_judgment_def recognized_actions_def)
  have h2: "capture ?env (iteration ?a + 1) = Inr ''frame''" by (simp add: scripted_def)
  have h3: "analyze ?env (iteration ?a + 1) ''frame'' ''click center'' [] = Inr ?an"
    by (simp add: scripted_def constant_script_def)
  have i: "keyboard_dev ?a = []" "mouse_dev ?a = []" by (simp_all add: init_agent_def)
  show ?thesis
    using unrecognized_action_skips_iteration[where a="?a" and env="?env" and frame="''frame''"
        and task="''click center''" and c="[]" and analysis="?an" and cb="Some silent_callback"]
      h1 h2 h3 i
    by simp
qed

text \<open>
  Claim C4, as stated, at a concrete iteration: for the action \<open>'scroll'\<close> the context
  stays empty and the callback is not called, whereas for \<open>'error'\<close> a note is appended
  and the callback is called once.
\<close>

theorem unrecognized_action_counterexample:
  "outcome_context (iteration_body (scripted (constant_script (scripted_judgment ''scroll'' None None)))
       (Some silent_callback) ''click center'' [] (init_agent (1920, 1080) 40 3)) = Some []
   \<and> callback_calls (outcome_agent (iteration_body
       (scripted (constant_script (scripted_judgment ''scroll'' None None)))
       (Some silent_callback) ''click center'' [] (init_agent (1920, 1080) 40 3))) = []
   \<and> outcome_context (iteration_body (scripted (constant_script (scripted_judgment ''error'' None None)))
       (Some silent_callback) ''click center'' [] (init_agent (1920, 1080) 40 3))
       = Some (CHR 0x0A # ''Iteration 1: Error - button'')
   \<and> callback_calls (outcome_agent (iteration_body
       (scripted (constant_script (scripted_judgment ''error'' None None)))
       (Some silent_callback) ''click center'' [] (init_agent (1920, 1080) 40 3)))
       = [(1, scripted_judgment ''error'' None None, ''error'')]"
  by (simp add: run_defs silent_callback_def note_head_def str_int_def digits.simps Let_def)

text \<open>
  Claim C2 at a concrete iteration.  With base speed 200, a judgment that reports the
  cursor at (0, 0) and asks to move toward (1000, 0) makes the agent request the delta
  (200, 0).  The mouse report carries (127, 0), and the estimate becomes (200, 0), not
  (127, 0): it advances by the delta requested, not by the delta written.
\<close>

theorem estimate_advances_by_unclamped_delta:
  "mouse_dev (outcome_agent (iteration_body
      (scripted (constant_script (scripted_judgment ''move'' (Some (Point 0 0)) (Some (Point 1000 0)))))
      None ''click center'' [] (init_agent (1920, 1080) 200 50))) = [(0, 127, 0)]
   \<and> estimated_cursor (outcome_agent (iteration_body
      (scripted (constant_script (scripted_judgment ''move'' (Some (Point 0 0)) (Some (Point 1000 0)))))
      None ''click center'' [] (init_agent (1920, 1080) 200 50))) = Some (Point 200 0)"
proof -
  let ?an = "scripted_judgment ''move'' (Some (Point 0 0)) (Some (Point 1000 0))"
  let ?env = "scripted (constant_script ?an)"
  let ?a = "init_agent (1920, 1080) 200 50"
  have d: "distance_of env 1000 0 = Inr 1000" if "libm_pow_half env = sqrt64" for env
    using distance_of_exact[OF that, of 1000 1000 0] by simp
  have x: "scale_component 1000 1000 200 = Inr 200"
    using scale_component_unit[of 1000 200] by simp
  have y: "scale_component 0 1000 200 = Inr 0"
    using scale_component_zero[of 1000 200] by simp
  have mv: "move_vector env b (Point 1000 0) 200 = Inr (200, 0)"
    if "libm_pow_half env = sqrt64" "estimated_cursor b = Some (Point 0 0)" for env b
    using that by (simp add: move_vector_def d normalize_scale_def x y proportional_speed_def)
  have cap: "capture ?env (iteration ?a + 1) = Inr ''frame''" by (simp add: scripted_def)
  have an: "analyze ?env (iteration ?a + 1) ''frame'' ''click center'' [] = Inr ?an"
    by (simp add: scripted_def constant_script_def)
  show ?thesis
    unfolding iteration_body_eq[OF cap an]
    by (simp add: execute_action_def notify_then_continue_def notify_def
        scripted_judgment_def init_agent_def Let_def observed_estimate_def
        move_cursor_toward_eq mv scripted_pow speed_or_default_def clamp127_def)
qed

end
